theory Spec2Isabelle
  imports Main "HOL-Library.AList"
begin

section \<open>The BPMN model as the parser reads it\<close>

text \<open>
  \<^verbatim>\<open>src/utils/BpmnModdleParser.ts\<close> walks a bpmn-moddle object graph. The objects
  refer to each other (a node to its outgoing sequence flows, a flow to its source and
  target, a process to its flow elements) and the graph may contain cycles, so the
  objects live in a store: a reference is an address, and the store maps every address to
  the properties the parser reads. Properties that the parser tests for presence
  (\<^verbatim>\<open>name\<close>, \<^verbatim>\<open>$attrs\<close>, \<^verbatim>\<open>outgoing\<close>, \<^verbatim>\<open>targetRef\<close>) are optional; the others
  have the type bpmn-moddle declares for them.
\<close>

type_synonym ref = nat

record element =
  etype :: string                               \<comment> \<open>\<^verbatim>\<open>$type\<close>\<close>
  eid :: string                                 \<comment> \<open>\<^verbatim>\<open>id\<close>\<close>
  ename :: "string option"                      \<comment> \<open>\<^verbatim>\<open>name\<close>\<close>
  attrs :: "(string \<times> string) list option"      \<comment> \<open>\<^verbatim>\<open>$attrs\<close>\<close>
  outgoing :: "ref list option"                 \<comment> \<open>\<^verbatim>\<open>outgoing\<close>, the sequence flows leaving a node\<close>
  flowElements :: "ref list"                    \<comment> \<open>\<^verbatim>\<open>flowElements\<close> of a (sub)process\<close>
  sourceRef :: ref                              \<comment> \<open>\<^verbatim>\<open>sourceRef\<close> of a sequence flow\<close>
  targetRef :: "ref option"                     \<comment> \<open>\<^verbatim>\<open>targetRef\<close> of a sequence flow\<close>

type_synonym heap = "ref \<Rightarrow> element"

text \<open>\<^verbatim>\<open>Definitions\<close>: only \<^verbatim>\<open>rootElements\<close> is read.\<close>

record Definitions =
  rootElements :: "ref list"

subsection \<open>The process tree and the node table\<close>

text \<open>
  A tree part is a string, an object with one key whose value is an array
  (\<^verbatim>\<open>{ Flow: [...] }\<close>, \<^verbatim>\<open>{ [id]: [...] }\<close>, \<^verbatim>\<open>{ Process: [...] }\<close>), or a bare array
  (pushed by the else branch of \<^verbatim>\<open>parseSplittedControlflow\<close>).
\<close>

datatype tree_part =
    Leaf string
  | Obj string "tree_part list"
  | Arr "tree_part list"

record ProcessTreeNodeInfo =
  label :: string
  concept :: string

text \<open>
  \<^verbatim>\<open>processTreeNodes: Record<string, ProcessTreeNodeInfo>\<close>. A JavaScript object keeps
  its string keys in insertion order (keys that are not array indices, as the ids of BPMN
  elements, which are XML names) and an assignment to an existing key keeps the key's
  place: this is \<^const>\<open>AList.update\<close> on an association list.
\<close>

type_synonym table = "(string \<times> ProcessTreeNodeInfo) list"

record ProcessTree =
  tree :: tree_part
  nodeInfo :: table

subsection \<open>Errors\<close>

text \<open>
  The three \<^verbatim>\<open>throw new Error(...)\<close> of the parser, under the names the specification gives
  them, and the \<^verbatim>\<open>TypeError\<close> that JavaScript raises when a property of \<^verbatim>\<open>undefined\<close> is
  read.
  \<^item> \<open>MalformedGraph\<close>: "Startevent is not connected to flow!"
  \<^item> \<open>InconsistentJoin\<close>: "Something is wrong with the structure of your diagram!"
  \<^item> \<open>MissingOperationBinding\<close>: "Not all elements are correctly configured with an RPA
    operation."
\<close>

datatype error = MalformedGraph | InconsistentJoin | MissingOperationBinding | TypeError

text \<open>
  A method of the parser instance takes the table and returns the table as it is when
  the method returns or throws, next to the value or the error. \<open>None\<close> means that the
  fuel ran out before the method returned.
\<close>

type_synonym 'a outcome = "((error + 'a) \<times> table) option"

section \<open>The parser\<close>

definition hasOperation :: "element \<Rightarrow> bool" where
  \<comment> \<open>\<^verbatim>\<open>element.$attrs && "rpa:operation" in element.$attrs\<close>\<close>
  "hasOperation e =
     (case attrs e of None \<Rightarrow> False | Some a \<Rightarrow> map_of a ''rpa:operation'' \<noteq> None)"

definition labelOf :: "element \<Rightarrow> string" where
  \<comment> \<open>\<^verbatim>\<open>element.name || element.id\<close>: an empty name is falsy\<close>
  "labelOf e = (case ename e of None \<Rightarrow> eid e | Some n \<Rightarrow> if n = [] then eid e else n)"

definition getProcessNodeInfo :: "element \<Rightarrow> error + ProcessTreeNodeInfo" where
  "getProcessNodeInfo e =
     (case attrs e of
        None \<Rightarrow> Inl MissingOperationBinding
      | Some a \<Rightarrow>
          (case map_of a ''rpa:operation'' of
             None \<Rightarrow> Inl MissingOperationBinding
           | Some c \<Rightarrow> Inr \<lparr>label = labelOf e, concept = c\<rparr>))"

definition addProcessNodeInfo :: "element \<Rightarrow> table \<Rightarrow> (error + unit) \<times> table" where
  "addProcessNodeInfo e tbl =
     (case getProcessNodeInfo e of
        Inl err \<Rightarrow> (Inl err, tbl)
      | Inr info \<Rightarrow> (Inr (), AList.update (eid e) info tbl))"

definition getStartFlowOfProcess :: "heap \<Rightarrow> ref \<Rightarrow> ref option" where
  "getStartFlowOfProcess h p =
     find (\<lambda>sequenceFlow. etype (h (sourceRef (h sequenceFlow))) = ''bpmn:StartEvent'')
       (filter (\<lambda>flowElement. etype (h flowElement) = ''bpmn:SequenceFlow'')
          (flowElements (h p)))"

definition nextElementInFlow :: "heap \<Rightarrow> ref option \<Rightarrow> error + ref option" where
  \<comment> \<open>lines 102 to 106: \<^verbatim>\<open>lastElement.outgoing[0].targetRef\<close> when \<^verbatim>\<open>lastElement\<close> and its
      \<^verbatim>\<open>outgoing\<close> are truthy (an empty array is), \<^verbatim>\<open>undefined\<close> otherwise\<close>
  "nextElementInFlow h lastElement =
     (case lastElement of
        None \<Rightarrow> Inr None
      | Some l \<Rightarrow>
          (case outgoing (h l) of
             None \<Rightarrow> Inr None
           | Some [] \<Rightarrow> Inl TypeError
           | Some (f # _) \<Rightarrow> Inr (targetRef (h f))))"

definition sameLastElement :: "heap \<Rightarrow> ref list \<Rightarrow> bool" where
  \<comment> \<open>\<^verbatim>\<open>lastElementsOfBranches.every((element) => element.id === lastElementsOfBranches[0].id)\<close>\<close>
  "sameLastElement h lasts =
     (case lasts of [] \<Rightarrow> True | l0 # _ \<Rightarrow> list_all (\<lambda>e. eid (h e) = eid (h l0)) lasts)"

definition firstLastElement :: "ref list \<Rightarrow> ref option" where
  \<comment> \<open>\<^verbatim>\<open>lastElementsOfBranches[0]\<close>\<close>
  "firstLastElement lasts = (case lasts of [] \<Rightarrow> None | l0 # _ \<Rightarrow> Some l0)"

definition branchPart :: "tree_part list \<Rightarrow> tree_part" where
  \<comment> \<open>lines 162 to 166: what is pushed for a branch\<close>
  "branchPart parsedFlowBranch =
     (case parsedFlowBranch of [x] \<Rightarrow> x | _ \<Rightarrow> Arr parsedFlowBranch)"

text \<open>
  The four methods call each other, and the walk follows references through a graph
  that may be cyclic, so they need not return. Each takes fuel, and every call and every
  loop iteration uses one unit. \<open>flowLoop\<close> is the \<^verbatim>\<open>while\<close> loop of
  \<^verbatim>\<open>parseProcessFlowUntilElement\<close> and \<open>branchLoop\<close> the \<^verbatim>\<open>forEach\<close> of
  \<^verbatim>\<open>parseSplittedControlflow\<close>, with the arrays they push to as accumulators.
\<close>

function parseProcess :: "nat \<Rightarrow> heap \<Rightarrow> ref \<Rightarrow> table \<Rightarrow> (tree_part \<times> ref option) outcome"
and parseProcessFlowUntilElement ::
      "nat \<Rightarrow> heap \<Rightarrow> ref option \<Rightarrow> string \<Rightarrow> table \<Rightarrow> (tree_part list \<times> ref option) outcome"
and flowLoop ::
      "nat \<Rightarrow> heap \<Rightarrow> string \<Rightarrow> ref option \<Rightarrow> tree_part list \<Rightarrow> table
         \<Rightarrow> (tree_part list \<times> ref option) outcome"
and parseProcessSegment :: "nat \<Rightarrow> heap \<Rightarrow> ref \<Rightarrow> table \<Rightarrow> (tree_part \<times> ref option) outcome"
and parseSplittedControlflow ::
      "nat \<Rightarrow> heap \<Rightarrow> ref \<Rightarrow> table \<Rightarrow> (tree_part \<times> ref option) outcome"
and branchLoop ::
      "nat \<Rightarrow> heap \<Rightarrow> ref \<Rightarrow> ref list \<Rightarrow> tree_part list \<Rightarrow> ref list \<Rightarrow> table
         \<Rightarrow> (tree_part list \<times> ref list) outcome"
where
  "parseProcess 0 h p tbl = None"
| "parseProcess (Suc n) h p tbl =
     (case getStartFlowOfProcess h p of
        None \<Rightarrow> Some (Inl MalformedGraph, tbl)
      | Some startFlow \<Rightarrow>
          (case targetRef (h startFlow) of
             None \<Rightarrow> Some (Inl MalformedGraph, tbl)
           | Some t \<Rightarrow>
               (case parseProcessFlowUntilElement n h (Some t) ''bpmn:EndEvent'' tbl of
                  None \<Rightarrow> None
                | Some (Inl err, tbl1) \<Rightarrow> Some (Inl err, tbl1)
                | Some (Inr (treePart, lastElement), tbl1) \<Rightarrow>
                    if hasOperation (h p) then
                      (case addProcessNodeInfo (h p) tbl1 of
                         (Inl err, tbl2) \<Rightarrow> Some (Inl err, tbl2)
                       | (Inr _, tbl2) \<Rightarrow> Some (Inr (Obj (eid (h p)) treePart, Some p), tbl2))
                    else Some (Inr (Obj ''Process'' treePart, Some p), tbl1))))"
| "parseProcessFlowUntilElement 0 h startElement terminationType tbl = None"
| "parseProcessFlowUntilElement (Suc n) h startElement terminationType tbl =
     (case flowLoop n h terminationType startElement [] tbl of
        None \<Rightarrow> None
      | Some (Inl err, tbl1) \<Rightarrow> Some (Inl err, tbl1)
      | Some (Inr (parsedProcess, next), tbl1) \<Rightarrow>
          if length parsedProcess = 1 then Some (Inr (parsedProcess, next), tbl1)
          else Some (Inr ([Obj ''Flow'' parsedProcess], next), tbl1))"
| "flowLoop 0 h terminationType next parsedProcess tbl = None"
| "flowLoop (Suc n) h terminationType next parsedProcess tbl =
     (case next of
        None \<Rightarrow> Some (Inr (parsedProcess, None), tbl)
      | Some cur \<Rightarrow>
          if etype (h cur) = terminationType then Some (Inr (parsedProcess, Some cur), tbl)
          else
            (case parseProcessSegment n h cur tbl of
               None \<Rightarrow> None
             | Some (Inl err, tbl1) \<Rightarrow> Some (Inl err, tbl1)
             | Some (Inr (treePart, lastElement), tbl1) \<Rightarrow>
                 (case nextElementInFlow h lastElement of
                    Inl err \<Rightarrow> Some (Inl err, tbl1)
                  | Inr next' \<Rightarrow>
                      flowLoop n h terminationType next' (parsedProcess @ [treePart]) tbl1)))"
| "parseProcessSegment 0 h cur tbl = None"
| "parseProcessSegment (Suc n) h cur tbl =
     (if etype (h cur) = ''bpmn:Task'' then
        (case addProcessNodeInfo (h cur) tbl of
           (Inl err, tbl1) \<Rightarrow> Some (Inl err, tbl1)
         | (Inr _, tbl1) \<Rightarrow> Some (Inr (Leaf (eid (h cur)), Some cur), tbl1))
      else if etype (h cur) = ''bpmn:ParallelGateway''
              \<or> etype (h cur) = ''bpmn:ExclusiveGateway'' then
        parseSplittedControlflow n h cur tbl
      else if etype (h cur) = ''bpmn:SubProcess'' then parseProcess n h cur tbl
      else Some (Inr (Leaf '''', None), tbl))"
| "parseSplittedControlflow 0 h g tbl = None"
| "parseSplittedControlflow (Suc n) h g tbl =
     (case outgoing (h g) of
        None \<Rightarrow> Some (Inl TypeError, tbl)
      | Some bs \<Rightarrow>
          (case branchLoop n h g bs [] [] tbl of
             None \<Rightarrow> None
           | Some (Inl err, tbl1) \<Rightarrow> Some (Inl err, tbl1)
           | Some (Inr (branches, lasts), tbl1) \<Rightarrow>
               if \<not> sameLastElement h lasts then Some (Inl InconsistentJoin, tbl1)
               else
                 (case addProcessNodeInfo (h g) tbl1 of
                    (Inl err, tbl2) \<Rightarrow> Some (Inl err, tbl2)
                  | (Inr _, tbl2) \<Rightarrow>
                      Some (Inr (Obj (eid (h g)) branches, firstLastElement lasts), tbl2))))"
| "branchLoop 0 h g bs branches lasts tbl = None"
| "branchLoop (Suc n) h g bs branches lasts tbl =
     (case bs of
        [] \<Rightarrow> Some (Inr (branches, lasts), tbl)
      | branch # rest \<Rightarrow>
          (case parseProcessFlowUntilElement n h (targetRef (h branch)) (etype (h g)) tbl of
             None \<Rightarrow> None
           | Some (Inl err, tbl1) \<Rightarrow> Some (Inl err, tbl1)
           | Some (Inr (parsedFlowBranch, lastElement), tbl1) \<Rightarrow>
               branchLoop n h g rest (branches @ [branchPart parsedFlowBranch])
                 (case lastElement of None \<Rightarrow> lasts | Some l \<Rightarrow> lasts @ [l]) tbl1))"
  by pat_completeness auto

termination
  by (relation "measure (case_sum (case_sum fst (case_sum fst fst))
                                  (case_sum fst (case_sum fst fst)))") simp_all

definition parseBpmnModdle :: "nat \<Rightarrow> heap \<Rightarrow> Definitions \<Rightarrow> table \<Rightarrow> ProcessTree outcome" where
  \<comment> \<open>\<^verbatim>\<open>rootElements[0]\<close> of an empty array is \<^verbatim>\<open>undefined\<close>, and \<^verbatim>\<open>getStartFlowOfProcess\<close>
      reads its \<^verbatim>\<open>flowElements\<close>\<close>
  "parseBpmnModdle n h bpmnModdle tbl =
     (case rootElements bpmnModdle of
        [] \<Rightarrow> Some (Inl TypeError, tbl)
      | process # _ \<Rightarrow>
          (case parseProcess n h process tbl of
             None \<Rightarrow> None
           | Some (Inl err, tbl1) \<Rightarrow> Some (Inl err, tbl1)
           | Some (Inr (parsedProcess, _), tbl1) \<Rightarrow>
               Some (Inr \<lparr>tree = parsedProcess, nodeInfo = tbl1\<rparr>, tbl1)))"

section \<open>Example diagrams\<close>

text \<open>Objects are written with the properties their kind has; the others are absent.\<close>

definition blank :: element where
  "blank = \<lparr>etype = '''', eid = '''', ename = None, attrs = None, outgoing = None,
            flowElements = [], sourceRef = 0, targetRef = None\<rparr>"

definition flowNode :: "string \<Rightarrow> string \<Rightarrow> (string \<times> string) list \<Rightarrow> ref list option \<Rightarrow> element" where
  "flowNode ty i a out = blank\<lparr>etype := ty, eid := i, attrs := Some a, outgoing := out\<rparr>"

definition sequenceFlow :: "string \<Rightarrow> ref \<Rightarrow> ref option \<Rightarrow> element" where
  "sequenceFlow i s t =
     blank\<lparr>etype := ''bpmn:SequenceFlow'', eid := i, attrs := Some [], sourceRef := s,
           targetRef := t\<rparr>"

definition container :: "string \<Rightarrow> string \<Rightarrow> (string \<times> string) list \<Rightarrow> ref list option \<Rightarrow> ref list \<Rightarrow> element" where
  "container ty i a out els = (flowNode ty i a out)\<lparr>flowElements := els\<rparr>"

definition op :: "string \<Rightarrow> (string \<times> string) list" where
  "op c = [(''rpa:operation'', c)]"

text \<open>\<open>Start -> A -> End\<close>, the task \<open>A\<close> with the operation \<open>click\<close>.\<close>

definition linearDiagram :: heap where
  "linearDiagram = (\<lambda>_. blank)
     (0 := container ''bpmn:Process'' ''Process_1'' [] None [1, 2, 3, 4, 5],
      1 := flowNode ''bpmn:StartEvent'' ''Start'' [] (Some [4]),
      2 := flowNode ''bpmn:Task'' ''A'' (op ''click'') (Some [5]),
      3 := flowNode ''bpmn:EndEvent'' ''End'' [] None,
      4 := sequenceFlow ''f1'' 1 (Some 2),
      5 := sequenceFlow ''f2'' 2 (Some 3))"




text \<open>
  \<open>Start -> S -> B -> End\<close>, where \<open>S\<close> is a sub-process without operation that holds
  \<open>Start -> A -> End\<close>.
\<close>

definition subProcessDiagram :: heap where
  "subProcessDiagram = (\<lambda>_. blank)
     (0 := container ''bpmn:Process'' ''Process_1'' [] None [1, 2, 3, 4, 5, 6, 7],
      1 := flowNode ''bpmn:StartEvent'' ''Start'' [] (Some [5]),
      2 := container ''bpmn:SubProcess'' ''S'' [] (Some [6]) [8, 9, 10, 11, 12],
      3 := flowNode ''bpmn:Task'' ''B'' (op ''type'') (Some [7]),
      4 := flowNode ''bpmn:EndEvent'' ''End'' [] None,
      5 := sequenceFlow ''f1'' 1 (Some 2),
      6 := sequenceFlow ''f2'' 2 (Some 3),
      7 := sequenceFlow ''f3'' 3 (Some 4),
      8 := flowNode ''bpmn:StartEvent'' ''SubStart'' [] (Some [11]),
      9 := flowNode ''bpmn:Task'' ''A'' (op ''click'') (Some [12]),
      10 := flowNode ''bpmn:EndEvent'' ''SubEnd'' [] None,
      11 := sequenceFlow ''f4'' 8 (Some 9),
      12 := sequenceFlow ''f5'' 9 (Some 10))"

text \<open>\<open>Start -> A\<close>, where the array of outgoing flows of \<open>A\<close> is empty.\<close>

definition danglingDiagram :: heap where
  "danglingDiagram = (\<lambda>_. blank)
     (0 := container ''bpmn:Process'' ''Process_1'' [] None [1, 2, 3],
      1 := flowNode ''bpmn:StartEvent'' ''Start'' [] (Some [3]),
      2 := flowNode ''bpmn:Task'' ''A'' (op ''click'') (Some []),
      3 := sequenceFlow ''f1'' 1 (Some 2))"

text \<open>\<open>Start -> A -> B -> A\<close>: the flow leaving \<open>B\<close> returns to \<open>A\<close>.\<close>

definition cycleDiagram :: heap where
  "cycleDiagram = (\<lambda>_. blank)
     (0 := container ''bpmn:Process'' ''Process_1'' [] None [1, 2, 3, 4, 5, 6],
      1 := flowNode ''bpmn:StartEvent'' ''Start'' [] (Some [4]),
      2 := flowNode ''bpmn:Task'' ''A'' (op ''click'') (Some [5]),
      3 := flowNode ''bpmn:Task'' ''B'' (op ''type'') (Some [6]),
      4 := sequenceFlow ''f1'' 1 (Some 2),
      5 := sequenceFlow ''f2'' 2 (Some 3),
      6 := sequenceFlow ''f3'' 3 (Some 2))"


section \<open>Notions used to state the properties\<close>

text \<open>
  \<open>taskChain h cur ts e\<close>: from \<open>cur\<close>, following the first outgoing flow of each node,
  the walk meets exactly the tasks \<open>ts\<close>, each with an operation, and then the end event
  \<open>e\<close>. \<open>linearProcess h p ts e\<close>: the start flow of \<open>p\<close> leads into such a chain.
\<close>

fun taskChain :: "heap \<Rightarrow> ref \<Rightarrow> ref list \<Rightarrow> ref \<Rightarrow> bool" where
  "taskChain h cur [] e = (cur = e \<and> etype (h e) = ''bpmn:EndEvent'')"
| "taskChain h cur (t # ts) e =
     (cur = t \<and> etype (h t) = ''bpmn:Task'' \<and> hasOperation (h t) \<and>
      (case outgoing (h t) of
         Some (f # _) \<Rightarrow>
           (case targetRef (h f) of Some nx \<Rightarrow> taskChain h nx ts e | None \<Rightarrow> False)
       | _ \<Rightarrow> False))"

definition linearProcess :: "heap \<Rightarrow> ref \<Rightarrow> ref list \<Rightarrow> ref \<Rightarrow> bool" where
  "linearProcess h p ts e =
     (case getStartFlowOfProcess h p of
        None \<Rightarrow> False
      | Some startFlow \<Rightarrow>
          (case targetRef (h startFlow) of None \<Rightarrow> False | Some t \<Rightarrow> taskChain h t ts e))"

text \<open>The table after the nodes \<open>rs\<close> have been recorded in this order.\<close>

definition recordAll :: "heap \<Rightarrow> ref list \<Rightarrow> table \<Rightarrow> table" where
  "recordAll h rs tbl = foldl (\<lambda>t r. snd (addProcessNodeInfo (h r) t)) tbl rs"

text \<open>The key under which \<^verbatim>\<open>parseProcess\<close> stores the walked segment.\<close>

definition rootKey :: "heap \<Rightarrow> ref \<Rightarrow> string" where
  "rootKey h p = (if hasOperation (h p) then eid (h p) else ''Process'')"

definition leaves :: "heap \<Rightarrow> ref list \<Rightarrow> tree_part list" where
  "leaves h ts = map (\<lambda>t. Leaf (eid (h t))) ts"

text \<open>The conversion returns (a tree or an error): some amount of fuel is enough.\<close>

definition converts :: "heap \<Rightarrow> Definitions \<Rightarrow> table \<Rightarrow> bool" where
  "converts h d tbl \<longleftrightarrow> (\<exists>n r. parseBpmnModdle n h d tbl = Some r)"

text \<open>
  \<open>descends h rk\<close>: the ranking \<open>rk\<close> of the objects decreases along every sequence flow
  (from a node to the target of each of its outgoing flows) and from every (sub)process to
  the target of its start flow. A diagram has such a ranking when no path of sequence
  flows returns to a node it left and no sub-process contains itself.
\<close>

definition descends :: "heap \<Rightarrow> (ref \<Rightarrow> nat) \<Rightarrow> bool" where
  "descends h rk \<longleftrightarrow>
     (\<forall>r fs f t. outgoing (h r) = Some fs \<longrightarrow> f \<in> set fs \<longrightarrow> targetRef (h f) = Some t
        \<longrightarrow> rk t < rk r) \<and>
     (\<forall>p f t. getStartFlowOfProcess h p = Some f \<longrightarrow> targetRef (h f) = Some t
        \<longrightarrow> rk t < rk p)"





text \<open>
  \<open>startless h p\<close>: the (sub)process \<open>p\<close> has no sequence flow that leaves a start event,
  or the first such flow has no target. \<open>recordedKind e\<close>: \<open>e\<close> is of a kind that
  \<^verbatim>\<open>parseProcessSegment\<close> records (a task, or a gateway, which it takes for a split).
  \<open>origin h err\<close>: the diagram holds a cause for the error \<open>err\<close>.
\<close>

definition startless :: "heap \<Rightarrow> ref \<Rightarrow> bool" where
  "startless h p =
     (case getStartFlowOfProcess h p of None \<Rightarrow> True | Some f \<Rightarrow> targetRef (h f) = None)"

definition recordedKind :: "element \<Rightarrow> bool" where
  "recordedKind e \<longleftrightarrow>
     etype e = ''bpmn:Task'' \<or> etype e = ''bpmn:ParallelGateway''
     \<or> etype e = ''bpmn:ExclusiveGateway''"

definition origin :: "heap \<Rightarrow> error \<Rightarrow> bool" where
  "origin h err \<longleftrightarrow>
     (err = MissingOperationBinding \<longrightarrow> (\<exists>r. recordedKind (h r) \<and> \<not> hasOperation (h r))) \<and>
     (err = MalformedGraph \<longrightarrow> (\<exists>p. etype (h p) = ''bpmn:SubProcess'' \<and> startless h p))"

section \<open>Basic facts\<close>

lemmas diagram_defs =
  blank_def flowNode_def sequenceFlow_def container_def op_def

declare parseProcess.simps [simp del] parseProcessFlowUntilElement.simps [simp del]
  flowLoop.simps [simp del] parseProcessSegment.simps [simp del]
  parseSplittedControlflow.simps [simp del] branchLoop.simps [simp del]

subsection \<open>Fuel\<close>

text \<open>More fuel never changes a result: a call that returned returns the same with more.\<close>

lemma fuel_Suc:
  "(\<forall>p tbl r. parseProcess n h p tbl = Some r \<longrightarrow> parseProcess (Suc n) h p tbl = Some r) \<and>
   (\<forall>s T tbl r. parseProcessFlowUntilElement n h s T tbl = Some r
      \<longrightarrow> parseProcessFlowUntilElement (Suc n) h s T tbl = Some r) \<and>
   (\<forall>T nx acc tbl r. flowLoop n h T nx acc tbl = Some r
      \<longrightarrow> flowLoop (Suc n) h T nx acc tbl = Some r) \<and>
   (\<forall>c tbl r. parseProcessSegment n h c tbl = Some r
      \<longrightarrow> parseProcessSegment (Suc n) h c tbl = Some r) \<and>
   (\<forall>g tbl r. parseSplittedControlflow n h g tbl = Some r
      \<longrightarrow> parseSplittedControlflow (Suc n) h g tbl = Some r) \<and>
   (\<forall>g bs brs ls tbl r. branchLoop n h g bs brs ls tbl = Some r
      \<longrightarrow> branchLoop (Suc n) h g bs brs ls tbl = Some r)"
proof (induction n)
  case 0
  show ?case
    by (simp add: parseProcess.simps parseProcessFlowUntilElement.simps
        flowLoop.simps parseProcessSegment.simps parseSplittedControlflow.simps
        branchLoop.simps)
next
  case (Suc n)
  then have ih1: "\<And>p tbl r. parseProcess n h p tbl = Some r
        \<Longrightarrow> parseProcess (Suc n) h p tbl = Some r"
    and ih2: "\<And>s T tbl r. parseProcessFlowUntilElement n h s T tbl = Some r
        \<Longrightarrow> parseProcessFlowUntilElement (Suc n) h s T tbl = Some r"
    and ih3: "\<And>T nx acc tbl r. flowLoop n h T nx acc tbl = Some r
        \<Longrightarrow> flowLoop (Suc n) h T nx acc tbl = Some r"
    and ih4: "\<And>c tbl r. parseProcessSegment n h c tbl = Some r
        \<Longrightarrow> parseProcessSegment (Suc n) h c tbl = Some r"
    and ih5: "\<And>g tbl r. parseSplittedControlflow n h g tbl = Some r
        \<Longrightarrow> parseSplittedControlflow (Suc n) h g tbl = Some r"
    and ih6: "\<And>g bs brs ls tbl r. branchLoop n h g bs brs ls tbl = Some r
        \<Longrightarrow> branchLoop (Suc n) h g bs brs ls tbl = Some r"
    by auto
  have 1: "parseProcess (Suc (Suc n)) h p tbl = Some r"
    if "parseProcess (Suc n) h p tbl = Some r" for p tbl r
    using that
    apply (subst parseProcess.simps(2))
    apply (subst (asm) parseProcess.simps(2))
    apply (auto split: option.splits sum.splits prod.splits if_splits dest!: ih2)
    done
  have 2: "parseProcessFlowUntilElement (Suc (Suc n)) h s T tbl = Some r"
    if "parseProcessFlowUntilElement (Suc n) h s T tbl = Some r" for s T tbl r
    using that
    apply (subst parseProcessFlowUntilElement.simps(2))
    apply (subst (asm) parseProcessFlowUntilElement.simps(2))
    apply (auto split: option.splits sum.splits prod.splits if_splits dest!: ih3)
    done
  have 3: "flowLoop (Suc (Suc n)) h T nx acc tbl = Some r"
    if "flowLoop (Suc n) h T nx acc tbl = Some r" for T nx acc tbl r
    using that
    apply (subst flowLoop.simps(2))
    apply (subst (asm) flowLoop.simps(2))
    apply (auto split: option.splits sum.splits prod.splits if_splits dest!: ih4 ih3)
    done
  have 4: "parseProcessSegment (Suc (Suc n)) h c tbl = Some r"
    if "parseProcessSegment (Suc n) h c tbl = Some r" for c tbl r
    using that
    apply (subst parseProcessSegment.simps(2))
    apply (subst (asm) parseProcessSegment.simps(2))
    apply (auto split: option.splits sum.splits prod.splits if_splits dest!: ih1 ih5)
    done
  have 5: "parseSplittedControlflow (Suc (Suc n)) h g tbl = Some r"
    if "parseSplittedControlflow (Suc n) h g tbl = Some r" for g tbl r
    using that
    apply (subst parseSplittedControlflow.simps(2))
    apply (subst (asm) parseSplittedControlflow.simps(2))
    apply (auto split: option.splits sum.splits prod.splits if_splits dest!: ih6)
    done
  have 6: "branchLoop (Suc (Suc n)) h g bs brs ls tbl = Some r"
    if "branchLoop (Suc n) h g bs brs ls tbl = Some r" for g bs brs ls tbl r
    using that
    apply (subst branchLoop.simps(2))
    apply (subst (asm) branchLoop.simps(2))
    apply (auto split: option.splits sum.splits prod.splits if_splits list.splits
        dest!: ih2 ih6)
    done
  show ?case using 1 2 3 4 5 6 by blast
qed

lemmas fuel_step =
  fuel_Suc[THEN conjunct1, rule_format]
  fuel_Suc[THEN conjunct2, THEN conjunct1, rule_format]
  fuel_Suc[THEN conjunct2, THEN conjunct2, THEN conjunct1, rule_format]
  fuel_Suc[THEN conjunct2, THEN conjunct2, THEN conjunct2, THEN conjunct1, rule_format]
  fuel_Suc[THEN conjunct2, THEN conjunct2, THEN conjunct2, THEN conjunct2, THEN conjunct1,
    rule_format]
  fuel_Suc[THEN conjunct2, THEN conjunct2, THEN conjunct2, THEN conjunct2, THEN conjunct2,
    rule_format]

lemma parseProcess_fuel:
  "parseProcess n h p tbl = Some r \<Longrightarrow> n \<le> m \<Longrightarrow> parseProcess m h p tbl = Some r"
  by (induction m) (auto simp: le_Suc_eq intro: fuel_step)

lemma parseProcessFlowUntilElement_fuel:
  "parseProcessFlowUntilElement n h s T tbl = Some r \<Longrightarrow> n \<le> m
   \<Longrightarrow> parseProcessFlowUntilElement m h s T tbl = Some r"
  by (induction m) (auto simp: le_Suc_eq intro: fuel_step)

lemma flowLoop_fuel:
  "flowLoop n h T nx acc tbl = Some r \<Longrightarrow> n \<le> m \<Longrightarrow> flowLoop m h T nx acc tbl = Some r"
  by (induction m) (auto simp: le_Suc_eq intro: fuel_step)

lemma parseProcessSegment_fuel:
  "parseProcessSegment n h c tbl = Some r \<Longrightarrow> n \<le> m
   \<Longrightarrow> parseProcessSegment m h c tbl = Some r"
  by (induction m) (auto simp: le_Suc_eq intro: fuel_step)


lemma branchLoop_fuel:
  "branchLoop n h g bs brs ls tbl = Some r \<Longrightarrow> n \<le> m
   \<Longrightarrow> branchLoop m h g bs brs ls tbl = Some r"
  by (induction m) (auto simp: le_Suc_eq intro: fuel_step)

subsection \<open>Recording a node and walking a task\<close>

lemma addProcessNodeInfo_ok:
  "hasOperation e \<Longrightarrow> \<exists>t. addProcessNodeInfo e tbl = (Inr (), t)"
  by (auto simp: addProcessNodeInfo_def getProcessNodeInfo_def hasOperation_def
      split: option.splits)

lemma task_segment:
  assumes "etype (h t) = ''bpmn:Task''" "hasOperation (h t)"
  shows "parseProcessSegment (Suc n) h t tbl =
           Some (Inr (Leaf (eid (h t)), Some t), snd (addProcessNodeInfo (h t) tbl))"
  using assms addProcessNodeInfo_ok[OF assms(2), of tbl]
  by (auto simp: parseProcessSegment.simps)

section \<open>Linear processes\<close>

lemma flowLoop_taskChain:
  "taskChain h cur ts e \<Longrightarrow> length ts < n \<Longrightarrow>
   flowLoop n h ''bpmn:EndEvent'' (Some cur) acc tbl =
     Some (Inr (acc @ leaves h ts, Some e), recordAll h ts tbl)"
proof (induction ts arbitrary: n cur acc tbl)
  case Nil
  then obtain m where "n = Suc m" by (cases n) auto
  with Nil show ?case by (simp add: flowLoop.simps leaves_def recordAll_def)
next
  case (Cons t ts)
  from Cons.prems obtain m where n: "n = Suc (Suc m)" and m: "length ts < Suc m"
    by (cases n; cases "n - 1") auto
  from Cons.prems(1) obtain f fs nx where
    t: "cur = t" "etype (h t) = ''bpmn:Task''" "hasOperation (h t)"
    and out: "outgoing (h t) = Some (f # fs)" "targetRef (h f) = Some nx"
    and rest: "taskChain h nx ts e"
    by (auto split: option.splits list.splits)
  have seg: "parseProcessSegment (Suc m) h t tbl =
      Some (Inr (Leaf (eid (h t)), Some t), snd (addProcessNodeInfo (h t) tbl))"
    by (rule task_segment[of h t, OF t(2,3)])
  have nxt: "nextElementInFlow h (Some t) = Inr (Some nx)"
    by (simp add: nextElementInFlow_def out)
  have "flowLoop n h ''bpmn:EndEvent'' (Some cur) acc tbl =
      flowLoop (Suc m) h ''bpmn:EndEvent'' (Some nx) (acc @ [Leaf (eid (h t))])
        (snd (addProcessNodeInfo (h t) tbl))"
    unfolding n by (subst flowLoop.simps(2)) (simp add: t seg nxt)
  also have "\<dots> = Some (Inr ((acc @ [Leaf (eid (h t))]) @ leaves h ts, Some e),
      recordAll h ts (snd (addProcessNodeInfo (h t) tbl)))"
    by (rule Cons.IH[OF rest m])
  finally show ?case by (simp add: leaves_def recordAll_def)
qed

text \<open>
  Claim C1. Let the first root element \<open>p\<close> of the definitions be a linear process: its
  start flow leads through the tasks \<open>ts\<close>, each with an operation, to an end event. Then
  \<^verbatim>\<open>parseBpmnModdle\<close> returns, with any fuel from \<open>length ts + 3\<close> on, a tree whose root key
  (the id of \<open>p\<close> if \<open>p\<close> has an operation, \<open>Process\<close> otherwise) maps to the single leaf of
  the task when there is exactly one task, and otherwise to one \<open>Flow\<close> group that lists
  the task ids in the order of the walk. The table returned is the given one with the
  tasks recorded in that order (and then \<open>p\<close>, if it has an operation).
\<close>

theorem linear_process_tree:
  assumes "rootElements d = p # others" "linearProcess h p ts e" "length ts + 3 \<le> n"
  shows "parseBpmnModdle n h d tbl =
     Some (Inr \<lparr>tree = Obj (rootKey h p)
                    (if length ts = 1 then leaves h ts else [Obj ''Flow'' (leaves h ts)]),
                nodeInfo = (if hasOperation (h p)
                            then snd (addProcessNodeInfo (h p) (recordAll h ts tbl))
                            else recordAll h ts tbl)\<rparr>,
           (if hasOperation (h p) then snd (addProcessNodeInfo (h p) (recordAll h ts tbl))
            else recordAll h ts tbl))"
proof -
  from assms(3) obtain m where n: "n = Suc (Suc m)" and m: "length ts < m"
    by (cases n; cases "n - 1") auto
  from assms(2) obtain sf t where sf: "getStartFlowOfProcess h p = Some sf"
    "targetRef (h sf) = Some t" and chain: "taskChain h t ts e"
    by (auto simp: linearProcess_def split: option.splits)
  have walk: "parseProcessFlowUntilElement (Suc m) h (Some t) ''bpmn:EndEvent'' tbl =
     Some (Inr (if length ts = 1 then leaves h ts else [Obj ''Flow'' (leaves h ts)], Some e),
           recordAll h ts tbl)"
    by (simp add: parseProcessFlowUntilElement.simps flowLoop_taskChain[OF chain m] leaves_def)
  show ?thesis
    using addProcessNodeInfo_ok[of "h p" "recordAll h ts tbl"]
    by (auto simp: parseBpmnModdle_def assms(1) n parseProcess.simps sf walk rootKey_def)
qed

text \<open>
  The diagram \<open>Start -> A -> End\<close> with the operation \<open>click\<close> on \<open>A\<close> is such a process,
  and the theorem gives the tree \<^verbatim>\<open>{"Process": ["A"]}\<close> and the table
  \<^verbatim>\<open>{"A": {label: "A", concept: "click"}}\<close>.
\<close>

theorem linear_process_tree_witness:
  "linearProcess linearDiagram 0 [2] 3 \<and>
   parseBpmnModdle 4 linearDiagram \<lparr>rootElements = [0]\<rparr> [] =
     Some (Inr \<lparr>tree = Obj ''Process'' [Leaf ''A''],
                nodeInfo = [(''A'', \<lparr>label = ''A'', concept = ''click''\<rparr>)]\<rparr>,
           [(''A'', \<lparr>label = ''A'', concept = ''click''\<rparr>)])"
proof -
  have lp: "linearProcess linearDiagram 0 [2] 3"
    by (simp add: linearProcess_def getStartFlowOfProcess_def linearDiagram_def diagram_defs
        hasOperation_def)
  have d: "rootElements \<lparr>rootElements = [0::nat]\<rparr> = 0 # []" by simp
  show ?thesis
    using lp linear_process_tree[OF d lp, of 4 "[]"]
    by (simp add: rootKey_def leaves_def recordAll_def hasOperation_def addProcessNodeInfo_def
        getProcessNodeInfo_def labelOf_def linearDiagram_def diagram_defs)
qed

section \<open>A node whose array of outgoing flows is empty\<close>

text \<open>
  Claim C8. The walk is to halt cleanly at a node without a further outgoing flow, also
  when the node's array of outgoing flows is empty. In the diagram \<open>Start -> A\<close> where
  \<^verbatim>\<open>A.outgoing\<close> is \<^verbatim>\<open>[]\<close>, the guard \<^verbatim>\<open>lastElement && lastElement.outgoing\<close> holds
  (an empty array is truthy), \<^verbatim>\<open>lastElement.outgoing[0]\<close> is \<^verbatim>\<open>undefined\<close>, and reading its
  \<^verbatim>\<open>targetRef\<close> raises a \<^verbatim>\<open>TypeError\<close>: the conversion aborts after it has recorded \<open>A\<close>.
\<close>

theorem empty_outgoing_raises_TypeError:
  "parseBpmnModdle 4 danglingDiagram \<lparr>rootElements = [0]\<rparr> [] =
     Some (Inl TypeError, [(''A'', \<lparr>label = ''A'', concept = ''click''\<rparr>)])"
  by code_simp

section \<open>Termination\<close>

lemma cycle_never_halts:
  "flowLoop n cycleDiagram ''bpmn:EndEvent'' (Some 2) acc tbl = None \<and>
   flowLoop n cycleDiagram ''bpmn:EndEvent'' (Some 3) acc tbl = None"
proof (induction n arbitrary: acc tbl)
  case 0
  show ?case by (simp add: flowLoop.simps)
next
  case (Suc n)
  show ?case
  proof (cases n)
    case 0
    then show ?thesis
      by (simp add: flowLoop.simps parseProcessSegment.simps cycleDiagram_def diagram_defs)
  next
    case (Suc m)
    have a: "parseProcessSegment (Suc m) cycleDiagram 2 tbl =
        Some (Inr (Leaf ''A'', Some 2), snd (addProcessNodeInfo (cycleDiagram 2) tbl))" for tbl
      using task_segment[of cycleDiagram 2 m tbl]
      by (simp add: cycleDiagram_def diagram_defs hasOperation_def)
    have b: "parseProcessSegment (Suc m) cycleDiagram 3 tbl =
        Some (Inr (Leaf ''B'', Some 3), snd (addProcessNodeInfo (cycleDiagram 3) tbl))" for tbl
      using task_segment[of cycleDiagram 3 m tbl]
      by (simp add: cycleDiagram_def diagram_defs hasOperation_def)
    have na: "nextElementInFlow cycleDiagram (Some 2) = Inr (Some 3)"
      and nb: "nextElementInFlow cycleDiagram (Some 3) = Inr (Some 2)"
      and ty: "etype (cycleDiagram 2) \<noteq> ''bpmn:EndEvent''"
              "etype (cycleDiagram 3) \<noteq> ''bpmn:EndEvent''"
      by (simp_all add: nextElementInFlow_def cycleDiagram_def diagram_defs)
    show ?thesis
      using Suc.IH ty unfolding Suc
      by (simp add: flowLoop.simps(2)[of "Suc m"] a b na nb)
  qed
qed

text \<open>
  Claim C9, as stated, fails: the diagram \<open>Start -> A -> B -> A\<close> is finite, and the walk
  from \<open>A\<close> never meets an end event nor a node without outgoing flow, so no amount of
  fuel lets the conversion return.
\<close>

theorem cycle_never_converts:
  "\<not> converts cycleDiagram \<lparr>rootElements = [0]\<rparr> []"
proof -
  have start: "getStartFlowOfProcess cycleDiagram 0 = Some 4"
    and tgt: "targetRef (cycleDiagram 4) = Some 2"
    by (simp_all add: getStartFlowOfProcess_def cycleDiagram_def diagram_defs)
  have "parseProcessFlowUntilElement n cycleDiagram (Some 2) ''bpmn:EndEvent'' tbl = None"
    for n tbl
    by (cases n) (simp_all add: parseProcessFlowUntilElement.simps cycle_never_halts)
  then have "parseProcess n cycleDiagram 0 [] = None" for n
    by (cases n) (simp_all add: parseProcess.simps start tgt)
  then show ?thesis by (simp add: converts_def parseBpmnModdle_def)
qed

subsection \<open>Diagrams without cycles\<close>

lemma descends_outgoing:
  "descends h rk \<Longrightarrow> outgoing (h r) = Some fs \<Longrightarrow> f \<in> set fs
   \<Longrightarrow> targetRef (h f) = Some t \<Longrightarrow> rk t < rk r"
  unfolding descends_def by blast

lemma descends_start:
  "descends h rk \<Longrightarrow> getStartFlowOfProcess h p = Some f \<Longrightarrow> targetRef (h f) = Some t
   \<Longrightarrow> rk t < rk p"
  unfolding descends_def by blast

lemma walk_returns:
  assumes d: "descends h rk"
  shows "\<exists>n res. flowLoop n h T (Some r) acc tbl = Some res \<and>
           (\<forall>a l t. res = (Inr (a, Some l), t) \<longrightarrow> rk l \<le> rk r)"
proof (induction "rk r" arbitrary: r T acc tbl rule: less_induct)
  case less
  have W: "\<exists>n res. flowLoop n h T x acc tbl = Some res \<and>
             (\<forall>a l t. res = (Inr (a, Some l), t) \<longrightarrow> rk l < rk r)"
    if "\<forall>s. x = Some s \<longrightarrow> rk s < rk r" for x T acc tbl
  proof (cases x)
    case None
    have "flowLoop (Suc 0) h T None acc tbl = Some (Inr (acc, None), tbl)"
      by (simp add: flowLoop.simps)
    then show ?thesis unfolding None by blast
  next
    case (Some s)
    with that have s: "rk s < rk r" by simp
    from less.hyps[OF s, of T acc tbl] obtain n res where
      "flowLoop n h T (Some s) acc tbl = Some res"
      "\<forall>a l t. res = (Inr (a, Some l), t) \<longrightarrow> rk l \<le> rk s" by blast
    with s show ?thesis unfolding Some by (intro exI[of _ n] exI[of _ res]) auto
  qed
  have U: "\<exists>n res. parseProcessFlowUntilElement n h x T tbl = Some res \<and>
             (\<forall>a l t. res = (Inr (a, Some l), t) \<longrightarrow> rk l < rk r)"
    if "\<forall>s. x = Some s \<longrightarrow> rk s < rk r" for x T tbl
  proof -
    from W[OF that, of T "[]" tbl] obtain n res where
      w: "flowLoop n h T x [] tbl = Some res"
      "\<forall>a l t. res = (Inr (a, Some l), t) \<longrightarrow> rk l < rk r" by blast
    show ?thesis
      using w
      by (intro exI[of _ "Suc n"])
         (auto simp: parseProcessFlowUntilElement.simps split: sum.splits prod.splits)
  qed
  have B: "\<exists>n res. branchLoop n h r bs brs ls tbl = Some res \<and>
             (\<forall>b' l' t. res = (Inr (b', l'), t) \<longrightarrow> (\<forall>l\<in>set l'. l \<in> set ls \<or> rk l < rk r))"
    if "\<forall>b\<in>set bs. \<forall>s. targetRef (h b) = Some s \<longrightarrow> rk s < rk r" for bs brs ls tbl
    using that
  proof (induction bs arbitrary: brs ls tbl)
    case Nil
    have "branchLoop (Suc 0) h r [] brs ls tbl = Some (Inr (brs, ls), tbl)"
      by (simp add: branchLoop.simps)
    then show ?case by auto
  next
    case (Cons b bs)
    from Cons.prems have "\<forall>s. targetRef (h b) = Some s \<longrightarrow> rk s < rk r" by simp
    from U[OF this, of "etype (h r)" tbl] obtain n1 res1 where
      u: "parseProcessFlowUntilElement n1 h (targetRef (h b)) (etype (h r)) tbl = Some res1"
      and ul: "\<forall>a l t. res1 = (Inr (a, Some l), t) \<longrightarrow> rk l < rk r" by blast
    show ?case
    proof (cases res1)
      case (Pair x t1)
      show ?thesis
      proof (cases x)
        case (Inl e)
        have "branchLoop (Suc n1) h r (b # bs) brs ls tbl = Some (Inl e, t1)"
          by (simp add: branchLoop.simps u Pair Inl)
        then show ?thesis by blast
      next
        case (Inr y)
        obtain pfb le where y: "y = (pfb, le)" by (cases y)
        let ?ls = "case le of None \<Rightarrow> ls | Some l \<Rightarrow> ls @ [l]"
        from Cons.prems have "\<forall>b\<in>set bs. \<forall>s. targetRef (h b) = Some s \<longrightarrow> rk s < rk r"
          by simp
        from Cons.IH[OF this, of "brs @ [branchPart pfb]" ?ls t1] obtain n2 res2 where
          b2: "branchLoop n2 h r bs (brs @ [branchPart pfb]) ?ls t1 = Some res2"
          and bl: "\<forall>b' l' t. res2 = (Inr (b', l'), t)
                     \<longrightarrow> (\<forall>l\<in>set l'. l \<in> set ?ls \<or> rk l < rk r)" by blast
        let ?m = "max n1 n2"
        have u': "parseProcessFlowUntilElement ?m h (targetRef (h b)) (etype (h r)) tbl
                    = Some res1"
          by (rule parseProcessFlowUntilElement_fuel[OF u]) simp
        have b2': "branchLoop ?m h r bs (brs @ [branchPart pfb]) ?ls t1 = Some res2"
          by (rule branchLoop_fuel[OF b2]) simp
        have "branchLoop (Suc ?m) h r (b # bs) brs ls tbl = Some res2"
          by (simp add: branchLoop.simps(2)[of ?m] u' Pair Inr y b2')
        moreover have "\<forall>l\<in>set ?ls. l \<in> set ls \<or> rk l < rk r"
          using ul Pair Inr y by (auto split: option.splits)
        ultimately show ?thesis using bl by blast
      qed
    qed
  qed
  have P: "\<exists>n res. parseSplittedControlflow n h r tbl = Some res \<and>
             (\<forall>a l t. res = (Inr (a, Some l), t) \<longrightarrow> rk l < rk r)" for tbl
  proof (cases "outgoing (h r)")
    case None
    have "parseSplittedControlflow (Suc 0) h r tbl = Some (Inl TypeError, tbl)"
      by (simp add: parseSplittedControlflow.simps None)
    then show ?thesis by blast
  next
    case (Some bs)
    with d have "\<forall>b\<in>set bs. \<forall>s. targetRef (h b) = Some s \<longrightarrow> rk s < rk r"
      by (auto dest: descends_outgoing)
    from B[OF this, of "[]" "[]" tbl] obtain n res where
      b: "branchLoop n h r bs [] [] tbl = Some res"
      and bl: "\<forall>b' l' t. res = (Inr (b', l'), t) \<longrightarrow> (\<forall>l\<in>set l'. rk l < rk r)" by auto
    show ?thesis
      using bl
      by (intro exI[of _ "Suc n"])
         (auto simp: parseSplittedControlflow.simps Some b firstLastElement_def
            split: sum.splits prod.splits list.splits)
  qed
  have Q: "\<exists>n res. parseProcess n h r tbl = Some res \<and>
             (\<forall>a l t. res = (Inr (a, Some l), t) \<longrightarrow> l = r)" for tbl
  proof (cases "getStartFlowOfProcess h r")
    case None
    have "parseProcess (Suc 0) h r tbl = Some (Inl MalformedGraph, tbl)"
      by (simp add: parseProcess.simps None)
    then show ?thesis by blast
  next
    case (Some sf)
    show ?thesis
    proof (cases "targetRef (h sf)")
      case None
      have "parseProcess (Suc 0) h r tbl = Some (Inl MalformedGraph, tbl)"
        by (simp add: parseProcess.simps Some None)
      then show ?thesis by blast
    next
      case (Some t)
      with \<open>getStartFlowOfProcess h r = Some sf\<close> d have "rk t < rk r"
        by (auto dest: descends_start)
      then have "\<forall>s. Some t = Some s \<longrightarrow> rk s < rk r" by simp
      from U[OF this, of "''bpmn:EndEvent''" tbl] obtain n res where
        u: "parseProcessFlowUntilElement n h (Some t) ''bpmn:EndEvent'' tbl = Some res"
        by blast
      show ?thesis
        by (intro exI[of _ "Suc n"])
           (auto simp: parseProcess.simps \<open>getStartFlowOfProcess h r = Some sf\<close> Some u
              split: sum.splits prod.splits)
    qed
  qed
  have S: "\<exists>n res. parseProcessSegment n h r tbl = Some res \<and>
             (\<forall>a l t. res = (Inr (a, Some l), t) \<longrightarrow> rk l \<le> rk r)" for tbl
  proof -
    from P[of tbl] obtain n1 res1 where
      p: "parseSplittedControlflow n1 h r tbl = Some res1"
         "\<forall>a l t. res1 = (Inr (a, Some l), t) \<longrightarrow> rk l < rk r" by blast
    from Q[of tbl] obtain n2 res2 where
      q: "parseProcess n2 h r tbl = Some res2"
         "\<forall>a l t. res2 = (Inr (a, Some l), t) \<longrightarrow> l = r" by blast
    consider (task) "etype (h r) = ''bpmn:Task''"
      | (gw) "etype (h r) \<noteq> ''bpmn:Task''"
             "etype (h r) = ''bpmn:ParallelGateway'' \<or> etype (h r) = ''bpmn:ExclusiveGateway''"
      | (sub) "etype (h r) \<noteq> ''bpmn:Task''"
             "\<not> (etype (h r) = ''bpmn:ParallelGateway'' \<or> etype (h r) = ''bpmn:ExclusiveGateway'')"
             "etype (h r) = ''bpmn:SubProcess''"
      | (other) "etype (h r) \<noteq> ''bpmn:Task''"
             "\<not> (etype (h r) = ''bpmn:ParallelGateway'' \<or> etype (h r) = ''bpmn:ExclusiveGateway'')"
             "etype (h r) \<noteq> ''bpmn:SubProcess''"
      by blast
    then show ?thesis
    proof cases
      case task
      then show ?thesis
        by (intro exI[of _ "Suc 0"])
           (auto simp: parseProcessSegment.simps split: sum.splits prod.splits)
    next
      case gw
      have "parseProcessSegment (Suc n1) h r tbl = Some res1"
        using gw by (simp add: parseProcessSegment.simps p(1))
      with p(2) show ?thesis by (intro exI[of _ "Suc n1"] exI[of _ res1]) auto
    next
      case sub
      have "parseProcessSegment (Suc n2) h r tbl = Some res2"
        using sub by (simp add: parseProcessSegment.simps q(1))
      with q(2) show ?thesis by (intro exI[of _ "Suc n2"] exI[of _ res2]) auto
    next
      case other
      then show ?thesis
        by (intro exI[of _ "Suc 0"]) (auto simp: parseProcessSegment.simps)
    qed
  qed
  show ?case
  proof (cases "etype (h r) = T")
    case True
    have "flowLoop (Suc 0) h T (Some r) acc tbl = Some (Inr (acc, Some r), tbl)"
      by (simp add: flowLoop.simps True)
    then show ?thesis by (intro exI[of _ "Suc 0"]) auto
  next
    case False
    from S[of tbl] obtain n1 res1 where
      s: "parseProcessSegment n1 h r tbl = Some res1"
      and sl: "\<forall>a l t. res1 = (Inr (a, Some l), t) \<longrightarrow> rk l \<le> rk r" by blast
    obtain x t1 where res1: "res1 = (x, t1)" by (cases res1)
    show ?thesis
    proof (cases x)
      case (Inl e)
      have "flowLoop (Suc n1) h T (Some r) acc tbl = Some (Inl e, t1)"
        by (simp add: flowLoop.simps False s res1 Inl)
      then show ?thesis by (intro exI[of _ "Suc n1"]) auto
    next
      case (Inr y)
      obtain tp le where y: "y = (tp, le)" by (cases y)
      show ?thesis
      proof (cases "nextElementInFlow h le")
        case (Inl e)
        have "flowLoop (Suc n1) h T (Some r) acc tbl = Some (Inl e, t1)"
          by (simp add: flowLoop.simps False s res1 Inr y Inl)
        then show ?thesis by (intro exI[of _ "Suc n1"]) auto
      next
        case nx: (Inr nx)
        have "\<forall>s. nx = Some s \<longrightarrow> rk s < rk r"
        proof (intro allI impI)
          fix s assume "nx = Some s"
          with nx obtain l f fs where l: "le = Some l" "outgoing (h l) = Some (f # fs)"
            "targetRef (h f) = Some s"
            by (auto simp: nextElementInFlow_def split: option.splits list.splits)
          from descends_outgoing[OF d l(2) _ l(3)] have "rk s < rk l" by simp
          moreover from sl res1 Inr y l have "rk l \<le> rk r" by simp
          ultimately show "rk s < rk r" by simp
        qed
        from W[OF this, of T "acc @ [tp]" t1] obtain n2 res2 where
          w: "flowLoop n2 h T nx (acc @ [tp]) t1 = Some res2"
          and wl: "\<forall>a l t. res2 = (Inr (a, Some l), t) \<longrightarrow> rk l < rk r" by blast
        let ?m = "max n1 n2"
        have s': "parseProcessSegment ?m h r tbl = Some res1"
          by (rule parseProcessSegment_fuel[OF s]) simp
        have w': "flowLoop ?m h T nx (acc @ [tp]) t1 = Some res2"
          by (rule flowLoop_fuel[OF w]) simp
        have "flowLoop (Suc ?m) h T (Some r) acc tbl = Some res2"
          by (simp add: flowLoop.simps(2)[of ?m] False s' res1 Inr y nx w')
        with wl show ?thesis by (intro exI[of _ "Suc ?m"] exI[of _ res2]) auto
      qed
    qed
  qed
qed

lemma parseProcess_returns:
  assumes d: "descends h rk"
  shows "\<exists>n res. parseProcess n h p tbl = Some res"
proof (cases "getStartFlowOfProcess h p")
  case None
  have "parseProcess (Suc 0) h p tbl = Some (Inl MalformedGraph, tbl)"
    by (simp add: parseProcess.simps None)
  then show ?thesis by blast
next
  case (Some sf)
  show ?thesis
  proof (cases "targetRef (h sf)")
    case None
    have "parseProcess (Suc 0) h p tbl = Some (Inl MalformedGraph, tbl)"
      by (simp add: parseProcess.simps Some None)
    then show ?thesis by blast
  next
    case t: (Some t)
    from walk_returns[OF d, of "''bpmn:EndEvent''" t "[]" tbl] obtain n res where
      w: "flowLoop n h ''bpmn:EndEvent'' (Some t) [] tbl = Some res" by blast
    show ?thesis
      by (intro exI[of _ "Suc (Suc n)"])
         (auto simp: parseProcess.simps parseProcessFlowUntilElement.simps Some t w
            split: sum.splits prod.splits)
  qed
qed

text \<open>
  Claim C9, amended. When the diagram has a ranking that decreases along every sequence
  flow and from every (sub)process to the target of its start flow, the conversion
  returns: some amount of fuel is enough for \<^verbatim>\<open>parseBpmnModdle\<close> to yield a tree or an
  error.
\<close>

theorem ranked_diagram_converts: "descends h rk \<Longrightarrow> converts h d tbl"
proof -
  assume d: "descends h rk"
  show ?thesis
  proof (cases "rootElements d")
    case Nil
    then show ?thesis by (auto simp: converts_def parseBpmnModdle_def)
  next
    case (Cons p ps)
    from parseProcess_returns[OF d, of p tbl] obtain n res where
      "parseProcess n h p tbl = Some res" by blast
    then show ?thesis
      unfolding converts_def
      by (intro exI[of _ n]) (auto simp: parseBpmnModdle_def Cons split: sum.splits prod.splits)
  qed
qed

theorem ranked_diagram_converts_witness:
  "descends linearDiagram (\<lambda>r. 4 - r) \<and> converts linearDiagram \<lparr>rootElements = [0]\<rparr> []"
proof -
  have d: "descends linearDiagram (\<lambda>r. 4 - r)"
    by (auto simp: descends_def getStartFlowOfProcess_def linearDiagram_def diagram_defs
        split: if_splits)
  from d ranked_diagram_converts[OF d] show ?thesis by simp
qed

section \<open>Splits\<close>













section \<open>The node table\<close>















section \<open>Where the errors come from\<close>

lemma origin_simps [simp]: "origin h TypeError" "origin h InconsistentJoin"
  by (simp_all add: origin_def)



section \<open>Operation bindings\<close>




section \<open>The start flow\<close>



section \<open>Sub-processes\<close>

lemma flowLoop_prefix:
  "flowLoop n h T nx acc tbl = Some (Inr (xs, l), t') \<Longrightarrow> \<exists>ys. xs = acc @ ys"
proof (induction n arbitrary: nx acc tbl)
  case 0
  then show ?case by (simp add: flowLoop.simps)
next
  case (Suc n)
  from Suc.prems consider (stop) "xs = acc"
    | (step) tp nx' tbl1 where "flowLoop n h T nx' (acc @ [tp]) tbl1 = Some (Inr (xs, l), t')"
    by (subst (asm) flowLoop.simps(2))
       (auto split: option.splits sum.splits prod.splits if_splits)
  then show ?case
  proof cases
    case stop
    then show ?thesis by simp
  next
    case step
    from Suc.IH[OF this] show ?thesis by auto
  qed
qed

text \<open>
  Claim C6. When \<^verbatim>\<open>parseProcess\<close> returns a tree part for \<open>p\<close>, the last element it
  returns is \<open>p\<close> itself, and the tree part is one object whose key is the id of \<open>p\<close> if
  \<open>p\<close> has an operation and \<open>Process\<close> otherwise. So when the walk meets a sub-process
  \<open>s\<close> whose parsing returns the tree part \<open>t\<close>, it appends \<open>t\<close> to the list it is
  building and goes on, with the same list, at the target of the first outgoing flow of
  \<open>s\<close>: in every list the walk returns, \<open>t\<close> is followed by the parts of the nodes behind
  \<open>s\<close>, as its siblings.
\<close>

theorem subprocess_returns_own_node:
  "(parseProcess n h p tbl = Some (Inr (t, l), tbl1)
      \<longrightarrow> l = Some p \<and> (\<exists>seg. t = Obj (rootKey h p) seg)) \<and>
   (etype (h s) = ''bpmn:SubProcess'' \<and> etype (h s) \<noteq> T \<and>
    parseProcess n h s tbl = Some (Inr (t, l), tbl1)
      \<longrightarrow> flowLoop (Suc (Suc n)) h T (Some s) acc tbl =
            (case nextElementInFlow h (Some s) of
               Inl err \<Rightarrow> Some (Inl err, tbl1)
             | Inr nx \<Rightarrow> flowLoop (Suc n) h T nx (acc @ [t]) tbl1) \<and>
          (\<forall>m xs l' tbl'. flowLoop m h T (Some s) acc tbl = Some (Inr (xs, l'), tbl')
             \<longrightarrow> (\<exists>ys. xs = acc @ t # ys)))"
proof (intro conjI impI)
  assume a: "parseProcess n h p tbl = Some (Inr (t, l), tbl1)"
  then obtain m where n: "n = Suc m" by (cases n) (auto simp: parseProcess.simps)
  from a show "l = Some p"
    unfolding n
    by (subst (asm) parseProcess.simps(2))
       (auto split: option.splits sum.splits prod.splits if_splits)
  from a show "\<exists>seg. t = Obj (rootKey h p) seg"
    unfolding n
    by (subst (asm) parseProcess.simps(2))
       (auto simp: rootKey_def split: option.splits sum.splits prod.splits if_splits)
next
  assume a: "etype (h s) = ''bpmn:SubProcess'' \<and> etype (h s) \<noteq> T \<and>
    parseProcess n h s tbl = Some (Inr (t, l), tbl1)"
  then have ty: "etype (h s) = ''bpmn:SubProcess''" and nT: "''bpmn:SubProcess'' \<noteq> T"
    and pp: "parseProcess n h s tbl = Some (Inr (t, l), tbl1)"
    by auto
  from pp obtain m where n: "n = Suc m" by (cases n) (auto simp: parseProcess.simps)
  from pp have l: "l = Some s"
    unfolding n
    by (subst (asm) parseProcess.simps(2))
       (auto split: option.splits sum.splits prod.splits if_splits)
  have seg: "parseProcessSegment (Suc k) h s tbl = Some (Inr (t, Some s), tbl1)" if "n \<le> k" for k
    using parseProcess_fuel[OF pp that] by (simp add: parseProcessSegment.simps l ty)
  have step: "flowLoop (Suc (Suc k)) h T (Some s) acc tbl =
            (case nextElementInFlow h (Some s) of
               Inl err \<Rightarrow> Some (Inl err, tbl1)
             | Inr nx \<Rightarrow> flowLoop (Suc k) h T nx (acc @ [t]) tbl1)" if "n \<le> k" for k
    using seg[OF that] nT by (subst flowLoop.simps(2)) (simp add: ty)
  from step[of n] show "flowLoop (Suc (Suc n)) h T (Some s) acc tbl =
            (case nextElementInFlow h (Some s) of
               Inl err \<Rightarrow> Some (Inl err, tbl1)
             | Inr nx \<Rightarrow> flowLoop (Suc n) h T nx (acc @ [t]) tbl1)"
    by simp
  show "\<forall>m xs l' tbl'. flowLoop m h T (Some s) acc tbl = Some (Inr (xs, l'), tbl')
             \<longrightarrow> (\<exists>ys. xs = acc @ t # ys)"
  proof (intro allI impI)
    fix m xs l' tbl'
    assume f: "flowLoop m h T (Some s) acc tbl = Some (Inr (xs, l'), tbl')"
    have "flowLoop (Suc (Suc (m + n))) h T (Some s) acc tbl = Some (Inr (xs, l'), tbl')"
      by (rule flowLoop_fuel[OF f]) simp
    with step[of "m + n"] obtain nx where
      "flowLoop (Suc (m + n)) h T nx (acc @ [t]) tbl1 = Some (Inr (xs, l'), tbl')"
      by (auto split: sum.splits)
    from flowLoop_prefix[OF this] show "\<exists>ys. xs = acc @ t # ys" by auto
  qed
qed

text \<open>
  In \<open>Start -> S -> B -> End\<close> with \<open>Start -> A -> End\<close> inside \<open>S\<close>, the part of \<open>B\<close>
  follows the part of \<open>S\<close> in the same \<open>Flow\<close> group.
\<close>

theorem subprocess_returns_own_node_witness:
  "parseProcess 4 subProcessDiagram 2 [] =
     Some (Inr (Obj ''Process'' [Leaf ''A''], Some 2),
           [(''A'', \<lparr>label = ''A'', concept = ''click''\<rparr>)]) \<and>
   flowLoop 6 subProcessDiagram ''bpmn:EndEvent'' (Some 2) [] [] =
     Some (Inr ([Obj ''Process'' [Leaf ''A''], Leaf ''B''], Some 4),
           [(''A'', \<lparr>label = ''A'', concept = ''click''\<rparr>),
            (''B'', \<lparr>label = ''B'', concept = ''type''\<rparr>)]) \<and>
   parseBpmnModdle 8 subProcessDiagram \<lparr>rootElements = [0]\<rparr> [] =
     Some (Inr \<lparr>tree = Obj ''Process''
                         [Obj ''Flow'' [Obj ''Process'' [Leaf ''A''], Leaf ''B'']],
                nodeInfo = [(''A'', \<lparr>label = ''A'', concept = ''click''\<rparr>),
                            (''B'', \<lparr>label = ''B'', concept = ''type''\<rparr>)]\<rparr>,
           [(''A'', \<lparr>label = ''A'', concept = ''click''\<rparr>),
            (''B'', \<lparr>label = ''B'', concept = ''type''\<rparr>)])"
proof -
  have sub: "parseProcess 4 subProcessDiagram 2 [] =
     Some (Inr (Obj ''Process'' [Leaf ''A''], Some 2),
           [(''A'', \<lparr>label = ''A'', concept = ''click''\<rparr>)])"
    by code_simp
  have ty: "etype (subProcessDiagram 2) = ''bpmn:SubProcess''"
    "etype (subProcessDiagram 2) \<noteq> ''bpmn:EndEvent''"
    by (simp_all add: subProcessDiagram_def diagram_defs)
  have nx: "nextElementInFlow subProcessDiagram (Some 2) = Inr (Some 3)"
    by (simp add: nextElementInFlow_def subProcessDiagram_def diagram_defs)
  have rest: "flowLoop 5 subProcessDiagram ''bpmn:EndEvent'' (Some 3)
       [Obj ''Process'' [Leaf ''A'']] [(''A'', \<lparr>label = ''A'', concept = ''click''\<rparr>)] =
     Some (Inr ([Obj ''Process'' [Leaf ''A''], Leaf ''B''], Some 4),
           [(''A'', \<lparr>label = ''A'', concept = ''click''\<rparr>),
            (''B'', \<lparr>label = ''B'', concept = ''type''\<rparr>)])"
    by code_simp
  have whole: "parseBpmnModdle 8 subProcessDiagram \<lparr>rootElements = [0]\<rparr> [] =
     Some (Inr \<lparr>tree = Obj ''Process''
                         [Obj ''Flow'' [Obj ''Process'' [Leaf ''A''], Leaf ''B'']],
                nodeInfo = [(''A'', \<lparr>label = ''A'', concept = ''click''\<rparr>),
                            (''B'', \<lparr>label = ''B'', concept = ''type''\<rparr>)]\<rparr>,
           [(''A'', \<lparr>label = ''A'', concept = ''click''\<rparr>),
            (''B'', \<lparr>label = ''B'', concept = ''type''\<rparr>)])"
    by code_simp
  from subprocess_returns_own_node[of 4 subProcessDiagram 2 "[]" "Obj ''Process'' [Leaf ''A'']" "Some 2"
          "[(''A'', \<lparr>label = ''A'', concept = ''click''\<rparr>)]" 2 "''bpmn:EndEvent''" "[]"]
    sub ty nx rest whole
  show ?thesis by (simp add: eval_nat_numeral)
qed

section \<open>The collapsing rule\<close>






section \<open>The table across conversions\<close>



end
